theory Spec2Isabelle
  imports Complex_Main "HOL-Library.Multiset" "HOL-Library.Sublist"
begin

section \<open>The study session of fc4.py\<close>

text \<open>
  The session lives in fields of the application object: \<open>study_cards\<close> (the live queue),
  \<open>current_card_index\<close>, \<open>show_answer\<close>, \<open>known_cards\<close>. Every callback mutates these
  fields and then redraws through \<open>show_study_card\<close>. The model passes the fields as a
  record; the window is reduced to the name of the screen that is drawn and to the
  statistics line of the completion screen. Timestamps, the per-deck study counter and
  \<open>save_data\<close> are persistence bookkeeping and are left out.
\<close>

record card =
  question :: string
  answer :: string

record study_card =
  original_index :: nat
  card_data :: card
  card_id :: string

text \<open>
  \<open>IndexError\<close> and \<open>ZeroDivisionError\<close> are Python exceptions. \<open>EmptyDeck\<close>, \<open>NoCards\<close>
  and \<open>NoDeckSelected\<close> stand for the early returns that show a message box
  ("Empty Deck", "No Cards", "No deck selected!") and leave without going on.
\<close>

datatype error = IndexError | ZeroDivisionError | EmptyDeck | NoCards | NoDeckSelected

datatype screen = MainMenu | DeckManagement | ModeSelection | StudyCardScreen | StudyCompleteScreen

record stats =
  original_count :: nat
  cards_mastered :: nat
  mastery_rate :: "rat option"

record app =
  decks :: "string \<rightharpoonup> card list"
  current_deck :: "string option"
  current_card_index :: nat
  study_mode :: string
  show_answer :: bool
  study_cards :: "study_card list"
  known_cards :: "string set"
  screen :: screen
  stats_shown :: "stats option"

subsection \<open>Decimal rendering of an index, as an f-string does\<close>

definition digit_char :: "nat \<Rightarrow> char" where
  "digit_char d = ''0123456789'' ! d"

fun str_nat :: "nat \<Rightarrow> string" where
  "str_nat n = (if n < 10 then [digit_char n] else str_nat (n div 10) @ [digit_char (n mod 10)])"

declare str_nat.simps [simp del]

text \<open>\<open>str(self.current_deck)\<close>: the deck name, or the text \<open>None\<close>.\<close>

definition deck_label :: "string option \<Rightarrow> string" where
  "deck_label d = (case d of None \<Rightarrow> ''None'' | Some n \<Rightarrow> n)"

subsection \<open>Deck access and queue construction\<close>

definition get_deck_cards :: "app \<Rightarrow> string option \<Rightarrow> card list" where
  "get_deck_cards s d =
     (case d of None \<Rightarrow> []
      | Some n \<Rightarrow> (case decks s n of None \<Rightarrow> [] | Some cs \<Rightarrow> cs))"

definition make_study_card :: "string option \<Rightarrow> nat \<times> card \<Rightarrow> study_card" where
  "make_study_card d ic =
     \<lparr>original_index = fst ic, card_data = snd ic,
      card_id = deck_label d @ ''_'' @ str_nat (fst ic)\<rparr>"

definition prepare_study_cards :: "app \<Rightarrow> app" where
  "prepare_study_cards s =
     (let original_cards = get_deck_cards s (current_deck s)
      in s\<lparr>study_cards := map (make_study_card (current_deck s)) (enumerate 0 original_cards),
           known_cards := {}\<rparr>)"

subsection \<open>random.shuffle\<close>

text \<open>
  \<open>random.shuffle\<close> belongs to the Python standard library, not to this program. It is
  the Fisher-Yates loop \<open>for i in reversed(range(1, len(x))): j = randbelow(i + 1);
  x[i], x[j] = x[j], x[i]\<close>. The random source is a parameter: \<open>rb k\<close> is the draw made
  for the bound \<open>k\<close>, reduced below \<open>k\<close> as \<open>randbelow\<close> guarantees.
\<close>

fun shuffle_from :: "(nat \<Rightarrow> nat) \<Rightarrow> nat \<Rightarrow> 'a list \<Rightarrow> 'a list" where
  "shuffle_from rb 0 xs = xs"
| "shuffle_from rb (Suc i) xs =
     (let j = rb (Suc i + 1) mod (Suc i + 1)
      in shuffle_from rb i (xs[Suc i := xs ! j, j := xs ! Suc i]))"

definition shuffle :: "(nat \<Rightarrow> nat) \<Rightarrow> 'a list \<Rightarrow> 'a list" where
  "shuffle rb xs = shuffle_from rb (length xs - 1) xs"

subsection \<open>Completion screen\<close>

definition study_complete :: "app \<Rightarrow> error + app" where
  "study_complete s =
     (let original_cards = get_deck_cards s (current_deck s);
          cards_known = card (known_cards s)
      in if cards_known > 0
         then (if length original_cards = 0 then Inl ZeroDivisionError
               else Inr (s\<lparr>screen := StudyCompleteScreen,
                           stats_shown := Some \<lparr>original_count = length original_cards,
                             cards_mastered = cards_known,
                             mastery_rate = Some (of_nat cards_known / of_nat (length original_cards) * 100)\<rparr>\<rparr>))
         else Inr (s\<lparr>screen := StudyCompleteScreen,
                     stats_shown := Some \<lparr>original_count = length original_cards,
                       cards_mastered = cards_known, mastery_rate = None\<rparr>\<rparr>))"

subsection \<open>The study screen and its callbacks\<close>

definition show_study_card :: "app \<Rightarrow> error + app" where
  "show_study_card s =
     (if current_card_index s \<ge> length (study_cards s) then study_complete s
      else Inr (s\<lparr>screen := StudyCardScreen\<rparr>))"

definition start_study_session :: "app \<Rightarrow> error + app" where
  "start_study_session s = show_study_card (s\<lparr>current_card_index := 0, show_answer := False\<rparr>)"

definition start_sequential :: "app \<Rightarrow> error + app" where
  "start_sequential s = start_study_session (prepare_study_cards (s\<lparr>study_mode := ''sequential''\<rparr>))"

definition start_random :: "(nat \<Rightarrow> nat) \<Rightarrow> app \<Rightarrow> error + app" where
  "start_random rb s =
     (let s1 = prepare_study_cards (s\<lparr>study_mode := ''random''\<rparr>)
      in start_study_session (s1\<lparr>study_cards := shuffle rb (study_cards s1)\<rparr>))"



definition toggle_answer :: "app \<Rightarrow> error + app" where
  "toggle_answer s = show_study_card (s\<lparr>show_answer := \<not> show_answer s\<rparr>)"

definition next_card :: "app \<Rightarrow> error + app" where
  "next_card s =
     show_study_card (s\<lparr>current_card_index := current_card_index s + 1, show_answer := False\<rparr>)"

definition prev_card :: "app \<Rightarrow> error + app" where
  "prev_card s =
     (if current_card_index s > 0
      then show_study_card (s\<lparr>current_card_index := current_card_index s - 1, show_answer := False\<rparr>)
      else Inr s)"

text \<open>
  \<open>mark_as_known\<close>: reading \<open>study_cards[current_card_index]\<close> raises \<open>IndexError\<close> past the
  end. \<open>pop(i)\<close> removes the entry at \<open>i\<close>; afterwards the index is reset to 0 when it
  points past the end of a queue that still has entries.
\<close>

definition mark_as_known :: "app \<Rightarrow> error + app" where
  "mark_as_known s =
     (let i = current_card_index s; cs = study_cards s
      in if i \<ge> length cs then Inl IndexError
         else
           let current_study_card = cs ! i;
               known' = insert (card_id current_study_card) (known_cards s);
               cs' = take i cs @ drop (Suc i) cs;
               i' = (if i \<ge> length cs' then (if length cs' > 0 then 0 else i) else i)
           in show_study_card (s\<lparr>known_cards := known', study_cards := cs',
                current_card_index := i', show_answer := False\<rparr>))"

text \<open>
  \<open>need_more_study\<close>: the loop body runs twice, and the suffix of each copy is the length
  of the queue at the moment the copy is made.
\<close>

definition duplicate_card :: "study_card \<Rightarrow> nat \<Rightarrow> study_card" where
  "duplicate_card c n =
     \<lparr>original_index = original_index c, card_data = card_data c,
      card_id = card_id c @ ''_dup_'' @ str_nat n\<rparr>"

fun append_duplicates :: "nat \<Rightarrow> study_card \<Rightarrow> study_card list \<Rightarrow> study_card list" where
  "append_duplicates 0 c cs = cs"
| "append_duplicates (Suc k) c cs = append_duplicates k c (cs @ [duplicate_card c (length cs)])"

definition need_more_study :: "app \<Rightarrow> error + app" where
  "need_more_study s =
     (let i = current_card_index s; cs = study_cards s
      in if i \<ge> length cs then Inl IndexError
         else next_card (s\<lparr>study_cards := append_duplicates 2 (cs ! i) cs\<rparr>))"

subsection \<open>Sessions as sequences of button presses\<close>

datatype action = Toggle | Next | Prev | Known | NeedMore

fun step :: "action \<Rightarrow> app \<Rightarrow> error + app" where
  "step Toggle s = toggle_answer s"
| "step Next s = next_card s"
| "step Prev s = prev_card s"
| "step Known s = mark_as_known s"
| "step NeedMore s = need_more_study s"

fun run :: "action list \<Rightarrow> app \<Rightarrow> error + app" where
  "run [] s = Inr s"
| "run (a # as) s = (case step a s of Inl e \<Rightarrow> Inl e | Inr s' \<Rightarrow> run as s')"

section \<open>The study session of flashcard_app_improved.py\<close>

text \<open>
  The improved variant keeps the queue fixed: grading only moves the index, and
  \<open>known_cards\<close> collects queue positions. \<open>datetime.now()\<close> is a parameter of every
  callback that may reach \<open>finish_study_session\<close>; times are whole seconds. The result of
  \<open>random.random() < 0.5\<close> is the parameter \<open>below_half\<close>. Float division is modelled
  exactly, over the rationals. The per-deck counters are left out as in the first variant.
\<close>

record history_entry =
  hist_date :: int
  hist_deck :: string
  hist_cards_studied :: nat
  hist_cards_known :: nat
  hist_duration :: int

record results =
  shown_studied :: nat
  shown_known :: nat
  shown_accuracy :: rat
  shown_duration :: int

record app_imp =
  decks_imp :: "string \<rightharpoonup> card list"
  study_history :: "history_entry list"
  current_deck_imp :: "string option"
  current_card_index_imp :: nat
  study_mode_imp :: string
  show_answer_imp :: bool
  study_cards_imp :: "card list"
  known_cards_imp :: "nat set"
  session_start_time :: "int option"
  screen_imp :: screen
  results_shown :: "results option"


definition accuracy :: "nat \<Rightarrow> nat \<Rightarrow> rat" where
  "accuracy known studied = (if studied > 0 then of_nat known / of_nat studied * 100 else 0)"

definition finish_study_session :: "int \<Rightarrow> app_imp \<Rightarrow> app_imp" where
  "finish_study_session now s =
     (case session_start_time s of
        None \<Rightarrow> s\<lparr>screen_imp := MainMenu\<rparr>
      | Some t0 \<Rightarrow>
          let duration = now - t0;
              studied = current_card_index_imp s;
              known = card (known_cards_imp s)
          in s\<lparr>study_history := study_history s @
                 [\<lparr>hist_date = now,
                   hist_deck = (case current_deck_imp s of None \<Rightarrow> ''All Decks''
                                | Some d \<Rightarrow> if d = [] then ''All Decks'' else d),
                   hist_cards_studied = studied, hist_cards_known = known,
                   hist_duration = duration\<rparr>],
               results_shown := Some \<lparr>shown_studied = studied, shown_known = known,
                 shown_accuracy = accuracy known studied, shown_duration = duration\<rparr>,
               screen_imp := MainMenu\<rparr>)"

definition show_study_card_imp :: "int \<Rightarrow> app_imp \<Rightarrow> app_imp" where
  "show_study_card_imp now s =
     (if current_card_index_imp s \<ge> length (study_cards_imp s) then finish_study_session now s
      else s\<lparr>screen_imp := StudyCardScreen\<rparr>)"

definition start_study_session_imp :: "bool \<Rightarrow> (nat \<Rightarrow> nat) \<Rightarrow> int \<Rightarrow> app_imp \<Rightarrow> app_imp" where
  "start_study_session_imp below_half rb now s =
     (let s1 = s\<lparr>current_card_index_imp := 0, known_cards_imp := {},
                 show_answer_imp := False, session_start_time := Some now\<rparr>;
          s2 = (if below_half then s1\<lparr>study_cards_imp := shuffle rb (study_cards_imp s1)\<rparr> else s1)
      in show_study_card_imp now s2)"


definition toggle_answer_imp :: "int \<Rightarrow> app_imp \<Rightarrow> app_imp" where
  "toggle_answer_imp now s = show_study_card_imp now (s\<lparr>show_answer_imp := True\<rparr>)"

definition next_card_imp :: "int \<Rightarrow> bool \<Rightarrow> app_imp \<Rightarrow> app_imp" where
  "next_card_imp now knew_it s =
     show_study_card_imp now
       (s\<lparr>known_cards_imp := (if knew_it then insert (current_card_index_imp s) (known_cards_imp s)
                               else known_cards_imp s),
          current_card_index_imp := current_card_index_imp s + 1,
          show_answer_imp := False\<rparr>)"

datatype action_imp = ToggleAnswer int | NextCard int bool | EndSession int

fun step_imp :: "action_imp \<Rightarrow> app_imp \<Rightarrow> app_imp" where
  "step_imp (ToggleAnswer now) s = toggle_answer_imp now s"
| "step_imp (NextCard now knew_it) s = next_card_imp now knew_it s"
| "step_imp (EndSession now) s = finish_study_session now s"

fun run_imp :: "action_imp list \<Rightarrow> app_imp \<Rightarrow> app_imp" where
  "run_imp [] s = s"
| "run_imp (a # as) s = run_imp as (step_imp a s)"

section \<open>Concrete decks\<close>

definition card_a :: card where
  "card_a = \<lparr>question = ''2+2'', answer = ''4''\<rparr>"

definition card_b :: card where
  "card_b = \<lparr>question = ''3+3'', answer = ''6''\<rparr>"

definition app0 :: app where
  "app0 = \<lparr>decks = [''D'' \<mapsto> [card_a, card_b], ''S'' \<mapsto> [card_a]], current_deck = None,
     current_card_index = 0, study_mode = ''sequential'', show_answer = False,
     study_cards = [], known_cards = {}, screen = MainMenu, stats_shown = None\<rparr>"


text \<open>The session over the one-card deck \<open>S\<close> and over the two-card deck \<open>D\<close>, just started
  in sequential order.\<close>

definition session_S :: app where
  "session_S = \<lparr>decks = [''D'' \<mapsto> [card_a, card_b], ''S'' \<mapsto> [card_a]], current_deck = Some ''S'',
     current_card_index = 0, study_mode = ''sequential'', show_answer = False,
     study_cards = [\<lparr>original_index = 0, card_data = card_a, card_id = ''S_0''\<rparr>],
     known_cards = {}, screen = StudyCardScreen, stats_shown = None\<rparr>"

definition session_D :: app where
  "session_D = \<lparr>decks = [''D'' \<mapsto> [card_a, card_b], ''S'' \<mapsto> [card_a]], current_deck = Some ''D'',
     current_card_index = 0, study_mode = ''sequential'', show_answer = False,
     study_cards = [\<lparr>original_index = 0, card_data = card_a, card_id = ''D_0''\<rparr>,
                    \<lparr>original_index = 1, card_data = card_b, card_id = ''D_1''\<rparr>],
     known_cards = {}, screen = StudyCardScreen, stats_shown = None\<rparr>"

text \<open>The improved variant's session over deck \<open>D\<close>, started at time 0 without a shuffle.\<close>

definition session_D_imp :: app_imp where
  "session_D_imp = \<lparr>decks_imp = [''D'' \<mapsto> [card_a, card_b], ''S'' \<mapsto> [card_a]],
     study_history = [], current_deck_imp = Some ''D'', current_card_index_imp = 0,
     study_mode_imp = ''sequential'', show_answer_imp = False,
     study_cards_imp = [card_a, card_b], known_cards_imp = {},
     session_start_time = Some 0, screen_imp = StudyCardScreen, results_shown = None\<rparr>"

section \<open>Invariant of a session of the first variant\<close>

text \<open>
  For a deck of \<open>N\<close> cards: every queue entry carries an \<open>original_index\<close> below \<open>N\<close> and a
  \<open>card_id\<close> that extends the identifier built for that index, and every identifier in
  \<open>known_cards\<close> extends the identifier built for some index below \<open>N\<close>.
\<close>

definition session_inv :: "nat \<Rightarrow> app \<Rightarrow> bool" where
  "session_inv N s \<longleftrightarrow>
     (\<forall>e \<in> set (study_cards s). original_index e < N \<and>
        prefix (deck_label (current_deck s) @ ''_'' @ str_nat (original_index e)) (card_id e)) \<and>
     (\<forall>k \<in> known_cards s. \<exists>i < N. prefix (deck_label (current_deck s) @ ''_'' @ str_nat i) k)"

section \<open>Basic facts about the first variant\<close>

lemma show_study_card_active:
  "current_card_index s < length (study_cards s) \<Longrightarrow>
   show_study_card s = Inr (s\<lparr>screen := StudyCardScreen\<rparr>)"
  by (simp add: show_study_card_def)

lemma study_complete_ok:
  "get_deck_cards s (current_deck s) \<noteq> [] \<Longrightarrow>
   \<exists>st. study_complete s = Inr (s\<lparr>screen := StudyCompleteScreen, stats_shown := Some st\<rparr>)"
  unfolding study_complete_def Let_def by (cases "card (known_cards s) > 0") auto

lemma get_deck_cards_cong:
  "decks s' = decks s \<Longrightarrow> get_deck_cards s' d = get_deck_cards s d"
  by (cases d) (simp_all add: get_deck_cards_def)

lemma run_D_next_known:
  "run [Next, Toggle, Known] session_D =
     Inr (session_D\<lparr>study_cards := [\<lparr>original_index = 0, card_data = card_a, card_id = ''D_0''\<rparr>],
            known_cards := {''D_1''}, current_card_index := 0\<rparr>)"
  by (simp add: session_D_def next_card_def toggle_answer_def mark_as_known_def
      show_study_card_def Let_def)

lemma run_S_scenario:
  "run [Toggle, NeedMore, Toggle, Known, Toggle, Known] session_S =
     Inr (session_S\<lparr>known_cards := {''S_0_dup_2'', ''S_0_dup_1''}\<rparr>)"
  by (simp add: session_S_def next_card_def toggle_answer_def mark_as_known_def
      need_more_study_def show_study_card_def Let_def numeral_2_eq_2 duplicate_card_def
      str_nat.simps digit_char_def)

lemma mark_as_known_effect:
  assumes act: "current_card_index s < length (study_cards s)"
      and deck: "get_deck_cards s (current_deck s) \<noteq> []"
  shows "\<exists>s'. mark_as_known s = Inr s' \<and>
     study_cards s' = take (current_card_index s) (study_cards s) @
                      drop (Suc (current_card_index s)) (study_cards s) \<and>
     length (study_cards s') = length (study_cards s) - 1 \<and>
     known_cards s' = insert (card_id (study_cards s ! current_card_index s)) (known_cards s) \<and>
     show_answer s' = False \<and>
     current_card_index s' =
       (if current_card_index s < length (study_cards s) - 1 then current_card_index s else 0) \<and>
     (screen s' = StudyCompleteScreen \<longleftrightarrow> study_cards s' = []) \<and>
     (screen s' = StudyCardScreen \<longleftrightarrow> study_cards s' \<noteq> []) \<and>
     decks s' = decks s \<and> current_deck s' = current_deck s"
proof -
  define i where "i = current_card_index s"
  define cs where "cs = study_cards s"
  define cs' where "cs' = take i cs @ drop (Suc i) cs"
  define i' where "i' = (if i < length cs - 1 then i else 0)"
  define t where "t = s\<lparr>known_cards := insert (card_id (cs ! i)) (known_cards s),
                study_cards := cs', current_card_index := i', show_answer := False\<rparr>"
  have ilt: "i < length cs" using act by (simp add: i_def cs_def)
  have len: "length cs' = length cs - 1" using ilt by (simp add: cs'_def)
  have i'_eq: "(if i \<ge> length cs' then (if length cs' > 0 then 0 else i) else i) = i'"
    using ilt len by (auto simp: i'_def)
  have mk: "mark_as_known s = show_study_card t"
    using ilt i'_eq unfolding mark_as_known_def t_def i_def cs_def cs'_def Let_def
    by (simp add: i_def cs_def)
  have deck_t: "get_deck_cards t (current_deck t) \<noteq> []"
  proof -
    have "decks t = decks s" and cd: "current_deck t = current_deck s" by (simp_all add: t_def)
    from get_deck_cards_cong [OF this(1)] cd deck show ?thesis by simp
  qed
  show ?thesis
  proof (cases "cs' = []")
    case True
    then have "current_card_index t \<ge> length (study_cards t)" by (simp add: t_def)
    then have "show_study_card t = study_complete t" by (simp add: show_study_card_def)
    with study_complete_ok [OF deck_t] obtain st where
      r: "mark_as_known s = Inr (t\<lparr>screen := StudyCompleteScreen, stats_shown := Some st\<rparr>)"
      using mk by auto
    show ?thesis using r True len ilt
      by (simp add: t_def i'_def i_def [symmetric] cs_def [symmetric] cs'_def [symmetric])
  next
    case False
    then have "length cs' > 0" by simp
    then have "i' < length cs'" using len ilt by (auto simp: i'_def)
    then have "show_study_card t = Inr (t\<lparr>screen := StudyCardScreen\<rparr>)"
      by (simp add: show_study_card_def t_def)
    then have r: "mark_as_known s = Inr (t\<lparr>screen := StudyCardScreen\<rparr>)" using mk by simp
    show ?thesis using r False len ilt
      by (simp add: t_def i'_def i_def [symmetric] cs_def [symmetric] cs'_def [symmetric])
  qed
qed

lemma single_card_scenario:
  assumes "study_cards u = [c]" and "current_card_index u = 0"
  shows "run [Toggle, NeedMore, Toggle, Known, Toggle, Known] u =
     Inr (u\<lparr>study_cards := [c], current_card_index := 0,
           known_cards := insert (card_id c @ ''_dup_2'') (insert (card_id c @ ''_dup_1'') (known_cards u)),
           show_answer := False, screen := StudyCardScreen\<rparr>)"
  using assms
  by (simp add: next_card_def toggle_answer_def mark_as_known_def
      need_more_study_def show_study_card_def Let_def numeral_2_eq_2 duplicate_card_def
      str_nat.simps digit_char_def)

section \<open>Grading a card as known\<close>

text \<open>
  C1, as the code has it. In a session whose index points at an entry (and whose deck
  still has its cards, so that the completion screen can be drawn), \<open>mark_as_known\<close>
  removes that entry, so the queue is one shorter, records its \<open>card_id\<close>, hides the
  answer and does not increment the index: the index keeps its value while an entry is
  left at that position and is reset to 0 otherwise. The completion screen is reached
  exactly when the queue is empty after the removal; while entries remain the study
  screen is drawn again. Consequently, on a one-entry queue, revealing, "needs more
  study" and then grading both copies known ends on the study screen at index 0, with
  the original entry still queued.
\<close>

theorem mark_as_known_removes_and_wraps:
  "(current_card_index s < length (study_cards s) \<and> get_deck_cards s (current_deck s) \<noteq> [] \<longrightarrow>
    (\<exists>s'. mark_as_known s = Inr s' \<and>
     study_cards s' = take (current_card_index s) (study_cards s) @
                      drop (Suc (current_card_index s)) (study_cards s) \<and>
     length (study_cards s') = length (study_cards s) - 1 \<and>
     known_cards s' = insert (card_id (study_cards s ! current_card_index s)) (known_cards s) \<and>
     show_answer s' = False \<and>
     current_card_index s' =
       (if current_card_index s < length (study_cards s) - 1 then current_card_index s else 0) \<and>
     (screen s' = StudyCompleteScreen \<longleftrightarrow> study_cards s' = []) \<and>
     (screen s' = StudyCardScreen \<longleftrightarrow> study_cards s' \<noteq> []))) \<and>
   (study_cards u = [c] \<and> current_card_index u = 0 \<longrightarrow>
    run [Toggle, NeedMore, Toggle, Known, Toggle, Known] u =
     Inr (u\<lparr>study_cards := [c], current_card_index := 0,
           known_cards := insert (card_id c @ ''_dup_2'') (insert (card_id c @ ''_dup_1'') (known_cards u)),
           show_answer := False, screen := StudyCardScreen\<rparr>))"
  using mark_as_known_effect [of s] single_card_scenario [of u c] by blast

theorem mark_as_known_removes_and_wraps_witness:
  "current_card_index session_D < length (study_cards session_D) \<and>
   get_deck_cards session_D (current_deck session_D) \<noteq> [] \<and>
   (\<exists>s'. mark_as_known session_D = Inr s' \<and>
      study_cards s' = [\<lparr>original_index = 1, card_data = card_b, card_id = ''D_1''\<rparr>] \<and>
      known_cards s' = {''D_0''} \<and> current_card_index s' = 0 \<and> screen s' = StudyCardScreen) \<and>
   study_cards session_S = [\<lparr>original_index = 0, card_data = card_a, card_id = ''S_0''\<rparr>] \<and>
   current_card_index session_S = 0 \<and>
   run [Toggle, NeedMore, Toggle, Known, Toggle, Known] session_S =
     Inr (session_S\<lparr>known_cards := {''S_0_dup_2'', ''S_0_dup_1''}\<rparr>)"
proof -
  have a: "current_card_index session_D < length (study_cards session_D)"
    by (simp add: session_D_def)
  have d: "get_deck_cards session_D (current_deck session_D) \<noteq> []"
    by (simp add: session_D_def get_deck_cards_def)
  have b: "study_cards session_S = [\<lparr>original_index = 0, card_data = card_a, card_id = ''S_0''\<rparr>]"
    and c: "current_card_index session_S = 0"
    by (simp_all add: session_S_def)
  note inst = mark_as_known_removes_and_wraps [of session_D session_S
      "\<lparr>original_index = 0, card_data = card_a, card_id = ''S_0''\<rparr>"]
  from inst a d obtain s' where
    "mark_as_known session_D = Inr s'"
    "study_cards s' = take (current_card_index session_D) (study_cards session_D) @
                      drop (Suc (current_card_index session_D)) (study_cards session_D)"
    "known_cards s' = insert (card_id (study_cards session_D ! current_card_index session_D))
                        (known_cards session_D)"
    "current_card_index s' =
       (if current_card_index session_D < length (study_cards session_D) - 1
        then current_card_index session_D else 0)"
    "(screen s' = StudyCardScreen \<longleftrightarrow> study_cards s' \<noteq> [])"
    by blast
  then have "mark_as_known session_D = Inr s' \<and>
      study_cards s' = [\<lparr>original_index = 1, card_data = card_b, card_id = ''D_1''\<rparr>] \<and>
      known_cards s' = {''D_0''} \<and> current_card_index s' = 0 \<and> screen s' = StudyCardScreen"
    by (simp add: session_D_def)
  then have first: "\<exists>s'. mark_as_known session_D = Inr s' \<and>
      study_cards s' = [\<lparr>original_index = 1, card_data = card_b, card_id = ''D_1''\<rparr>] \<and>
      known_cards s' = {''D_0''} \<and> current_card_index s' = 0 \<and> screen s' = StudyCardScreen"
    by blast
  from inst b c have "run [Toggle, NeedMore, Toggle, Known, Toggle, Known] session_S =
     Inr (session_S\<lparr>study_cards := [\<lparr>original_index = 0, card_data = card_a, card_id = ''S_0''\<rparr>],
           current_card_index := 0,
           known_cards := insert (card_id \<lparr>original_index = 0, card_data = card_a, card_id = ''S_0''\<rparr> @ ''_dup_2'')
              (insert (card_id \<lparr>original_index = 0, card_data = card_a, card_id = ''S_0''\<rparr> @ ''_dup_1'') (known_cards session_S)),
           show_answer := False, screen := StudyCardScreen\<rparr>)"
    by blast
  then have second: "run [Toggle, NeedMore, Toggle, Known, Toggle, Known] session_S =
     Inr (session_S\<lparr>known_cards := {''S_0_dup_2'', ''S_0_dup_1''}\<rparr>)"
    by (simp add: session_S_def)
  show ?thesis using a d b c first second by blast
qed

text \<open>
  C1 as the specification words it fails twice. On the two-card deck, moving to the
  second card and grading it known leaves a one-entry queue with no entry at position 1:
  the session is not complete, the index has been reset to 0 and the study screen shows
  the first card again. On the one-card deck, "needs more study" followed by grading both
  duplicates known ends on the study screen with the original entry still queued.
\<close>

theorem mark_as_known_wraps_counterexample:
  "map_sum id study_cards (run [Next, Toggle, Known] session_D) =
     Inr [\<lparr>original_index = 0, card_data = card_a, card_id = ''D_0''\<rparr>] \<and>
   map_sum id current_card_index (run [Next, Toggle, Known] session_D) = Inr 0 \<and>
   map_sum id screen (run [Next, Toggle, Known] session_D) = Inr StudyCardScreen \<and>
   map_sum id screen (run [Toggle, NeedMore, Toggle, Known, Toggle, Known] session_S) =
     Inr StudyCardScreen \<and>
   map_sum id study_cards (run [Toggle, NeedMore, Toggle, Known, Toggle, Known] session_S) =
     Inr [\<lparr>original_index = 0, card_data = card_a, card_id = ''S_0''\<rparr>]"
  unfolding run_D_next_known run_S_scenario by (simp add: session_D_def session_S_def)

section \<open>Going back\<close>

text \<open>
  C9, as the code has it. At index 0 \<open>prev_card\<close> does nothing: the state is returned
  unchanged and no error is signalled. At a positive index of a session that points at
  an entry it decrements the index, hides the answer and redraws the study screen.
\<close>

theorem prev_card_guarded:
  "(current_card_index s = 0 \<longrightarrow> prev_card s = Inr s) \<and>
   (0 < current_card_index s \<and> current_card_index s < length (study_cards s) \<longrightarrow>
      prev_card s = Inr (s\<lparr>current_card_index := current_card_index s - 1, show_answer := False,
                           screen := StudyCardScreen\<rparr>))"
  by (auto simp: prev_card_def show_study_card_def)

theorem prev_card_guarded_witness:
  "current_card_index session_D = 0 \<and> prev_card session_D = Inr session_D \<and>
   0 < current_card_index (session_D\<lparr>current_card_index := 1, show_answer := True\<rparr>) \<and>
   current_card_index (session_D\<lparr>current_card_index := 1, show_answer := True\<rparr>)
     < length (study_cards (session_D\<lparr>current_card_index := 1, show_answer := True\<rparr>)) \<and>
   prev_card (session_D\<lparr>current_card_index := 1, show_answer := True\<rparr>) = Inr session_D"
  using prev_card_guarded [of session_D]
    prev_card_guarded [of "session_D\<lparr>current_card_index := 1, show_answer := True\<rparr>"]
  by (simp add: session_D_def)

text \<open>The claim that going back at index 0 raises an error fails: the call returns
  normally, with the state it was given.\<close>

theorem prev_card_no_error_counterexample:
  "current_card_index session_D = 0 \<and> prev_card session_D = Inr session_D \<and>
   prev_card session_D \<noteq> Inl IndexError \<and> prev_card session_D \<noteq> Inl ZeroDivisionError \<and>
   prev_card session_D \<noteq> Inl EmptyDeck \<and> prev_card session_D \<noteq> Inl NoCards \<and>
   prev_card session_D \<noteq> Inl NoDeckSelected"
  by (simp add: prev_card_def session_D_def)

section \<open>Revealing the answer\<close>

text \<open>
  C7, as the code has it. In the improved variant \<open>toggle_answer\<close> sets
  \<open>show_answer\<close> and a second call changes nothing. In the first variant
  \<open>toggle_answer\<close> negates \<open>show_answer\<close>: it reveals a hidden answer, hides a shown one,
  and two calls in a row restore the flag.
\<close>

theorem toggle_answer_behaviour:
  "(current_card_index_imp t < length (study_cards_imp t) \<longrightarrow>
      show_answer_imp (toggle_answer_imp now t) = True \<and>
      toggle_answer_imp now' (toggle_answer_imp now t) = toggle_answer_imp now t) \<and>
   (current_card_index s < length (study_cards s) \<longrightarrow>
      toggle_answer s = Inr (s\<lparr>show_answer := \<not> show_answer s, screen := StudyCardScreen\<rparr>) \<and>
      run [Toggle, Toggle] s = Inr (s\<lparr>screen := StudyCardScreen\<rparr>))"
  by (simp add: toggle_answer_imp_def show_study_card_imp_def toggle_answer_def
      show_study_card_def)

theorem toggle_answer_behaviour_witness:
  "current_card_index_imp session_D_imp < length (study_cards_imp session_D_imp) \<and>
   show_answer_imp (toggle_answer_imp 1 session_D_imp) = True \<and>
   toggle_answer_imp 2 (toggle_answer_imp 1 session_D_imp) = toggle_answer_imp 1 session_D_imp \<and>
   current_card_index session_D < length (study_cards session_D) \<and>
   toggle_answer session_D = Inr (session_D\<lparr>show_answer := True\<rparr>) \<and>
   run [Toggle, Toggle] session_D = Inr session_D"
  using toggle_answer_behaviour [of session_D_imp 1 2 session_D]
  by (simp add: session_D_imp_def session_D_def toggle_answer_def show_study_card_def)

text \<open>Revealing twice in the first variant is not revealing once: the second call hides
  the answer again.\<close>

theorem toggle_answer_counterexample:
  "current_card_index session_D < length (study_cards session_D) \<and>
   run [Toggle] session_D = Inr (session_D\<lparr>show_answer := True\<rparr>) \<and>
   run [Toggle, Toggle] session_D = Inr session_D \<and>
   run [Toggle, Toggle] session_D \<noteq> run [Toggle] session_D"
  by (simp add: toggle_answer_def show_study_card_def session_D_def)

section \<open>A session graded known throughout\<close>

lemma known_run:
  "current_card_index s = 0 \<Longrightarrow> get_deck_cards s (current_deck s) \<noteq> [] \<Longrightarrow>
   j \<le> length (study_cards s) \<Longrightarrow>
   \<exists>s'. run (replicate j Known) s = Inr s' \<and> study_cards s' = drop j (study_cards s) \<and>
        current_card_index s' = 0 \<and>
        screen s' = (if j = 0 then screen s
                     else if j = length (study_cards s) then StudyCompleteScreen
                     else StudyCardScreen)"
proof (induction j arbitrary: s)
  case 0
  then show ?case by simp
next
  case (Suc k)
  have act: "current_card_index s < length (study_cards s)" using Suc.prems by auto
  from mark_as_known_effect [OF act Suc.prems(2)] obtain s1 where
    mk: "mark_as_known s = Inr s1"
    and cs1: "study_cards s1 = take (current_card_index s) (study_cards s) @
                      drop (Suc (current_card_index s)) (study_cards s)"
    and i1: "current_card_index s1 =
       (if current_card_index s < length (study_cards s) - 1 then current_card_index s else 0)"
    and sc1: "screen s1 = StudyCompleteScreen \<longleftrightarrow> study_cards s1 = []"
    and sc2: "screen s1 = StudyCardScreen \<longleftrightarrow> study_cards s1 \<noteq> []"
    and d1: "decks s1 = decks s" and c1: "current_deck s1 = current_deck s"
    by blast
  have cs1': "study_cards s1 = drop 1 (study_cards s)" using cs1 Suc.prems(1) by simp
  have i1': "current_card_index s1 = 0" using i1 Suc.prems(1) by simp
  have deck1: "get_deck_cards s1 (current_deck s1) \<noteq> []"
    using get_deck_cards_cong [OF d1] c1 Suc.prems(2) by simp
  have k: "k \<le> length (study_cards s1)" using Suc.prems(3) cs1' by simp
  from Suc.IH [OF i1' deck1 k] obtain s' where
    r: "run (replicate k Known) s1 = Inr s'" "study_cards s' = drop k (study_cards s1)"
       "current_card_index s' = 0"
       "screen s' = (if k = 0 then screen s1
                     else if k = length (study_cards s1) then StudyCompleteScreen
                     else StudyCardScreen)"
    by blast
  have run: "run (replicate (Suc k) Known) s = Inr s'" using mk r(1) by simp
  have cs: "study_cards s' = drop (Suc k) (study_cards s)" using r(2) cs1' by simp
  have scr: "screen s' = (if Suc k = length (study_cards s) then StudyCompleteScreen
                     else StudyCardScreen)"
  proof (cases "k = 0")
    case True
    then show ?thesis using r(4) sc1 sc2 cs1' Suc.prems(3)
      by (cases "study_cards s") (auto simp: drop_Suc)
  next
    case False
    then show ?thesis using r(4) cs1' Suc.prems(3) by auto
  qed
  show ?case using run cs r(3) scr by simp
qed

text \<open>
  C6. A session is started on a queue of K \<ge> 1 entries (of a deck that has cards) and
  only \<open>mark_as_known\<close> is called. After every number j < K of calls the study screen is
  shown and the index points at an entry; after exactly K calls the completion screen is
  shown and the queue is empty.
\<close>

theorem known_only_session_completes:
  assumes ne: "study_cards s0 \<noteq> []"
      and deck: "get_deck_cards s0 (current_deck s0) \<noteq> []"
  shows "\<exists>s. start_study_session s0 = Inr s \<and>
     (\<forall>j < length (study_cards s0). \<exists>s'. run (replicate j Known) s = Inr s' \<and>
         screen s' = StudyCardScreen \<and> current_card_index s' < length (study_cards s')) \<and>
     (\<exists>s'. run (replicate (length (study_cards s0)) Known) s = Inr s' \<and>
         screen s' = StudyCompleteScreen \<and> study_cards s' = [])"
proof -
  define s where "s = s0\<lparr>current_card_index := 0, show_answer := False, screen := StudyCardScreen\<rparr>"
  have st: "start_study_session s0 = Inr s"
    using ne by (simp add: start_study_session_def show_study_card_def s_def)
  have i0: "current_card_index s = 0" and cs: "study_cards s = study_cards s0"
    and scr: "screen s = StudyCardScreen" by (simp_all add: s_def)
  have d: "get_deck_cards s (current_deck s) \<noteq> []"
  proof -
    have "decks s = decks s0" "current_deck s = current_deck s0" by (simp_all add: s_def)
    with get_deck_cards_cong [of s s0] deck show ?thesis by simp
  qed
  have before: "\<exists>s'. run (replicate j Known) s = Inr s' \<and>
         screen s' = StudyCardScreen \<and> current_card_index s' < length (study_cards s')"
    if "j < length (study_cards s0)" for j
  proof -
    have "j \<le> length (study_cards s)" using that cs by simp
    from known_run [OF i0 d this] obtain s' where
      "run (replicate j Known) s = Inr s'" "study_cards s' = drop j (study_cards s)"
      "current_card_index s' = 0"
      "screen s' = (if j = 0 then screen s
                     else if j = length (study_cards s) then StudyCompleteScreen
                     else StudyCardScreen)" by blast
    then show ?thesis using that cs scr by auto
  qed
  have "length (study_cards s0) \<le> length (study_cards s)" using cs by simp
  from known_run [OF i0 d this] obtain s' where
      "run (replicate (length (study_cards s0)) Known) s = Inr s'"
      "study_cards s' = drop (length (study_cards s0)) (study_cards s)"
      "screen s' = (if length (study_cards s0) = 0 then screen s
                     else if length (study_cards s0) = length (study_cards s) then StudyCompleteScreen
                     else StudyCardScreen)" by blast
  then have "\<exists>s'. run (replicate (length (study_cards s0)) Known) s = Inr s' \<and>
         screen s' = StudyCompleteScreen \<and> study_cards s' = []"
    using ne cs by auto
  with st before show ?thesis by blast
qed

theorem known_only_session_completes_witness:
  "study_cards session_D \<noteq> [] \<and> get_deck_cards session_D (current_deck session_D) \<noteq> [] \<and>
   start_study_session session_D = Inr session_D \<and>
   map_sum id screen (run [Known] session_D) = Inr StudyCardScreen \<and>
   map_sum id screen (run [Known, Known] session_D) = Inr StudyCompleteScreen"
proof -
  have a: "study_cards session_D \<noteq> []" by (simp add: session_D_def)
  have d: "get_deck_cards session_D (current_deck session_D) \<noteq> []"
    by (simp add: session_D_def get_deck_cards_def)
  have st: "start_study_session session_D = Inr session_D"
    by (simp add: start_study_session_def show_study_card_def session_D_def)
  have len: "length (study_cards session_D) = Suc (Suc 0)" by (simp add: session_D_def)
  from known_only_session_completes [OF a d] st obtain
    b: "\<forall>j < length (study_cards session_D). \<exists>s'. run (replicate j Known) session_D = Inr s' \<and>
         screen s' = StudyCardScreen \<and> current_card_index s' < length (study_cards s')"
    and c: "\<exists>s'. run (replicate (length (study_cards session_D)) Known) session_D = Inr s' \<and>
         screen s' = StudyCompleteScreen \<and> study_cards s' = []"
    by auto
  from b len have "\<exists>s'. run (replicate (Suc 0) Known) session_D = Inr s' \<and> screen s' = StudyCardScreen"
    by auto
  then have one: "map_sum id screen (run [Known] session_D) = Inr StudyCardScreen" by auto
  from c len have "\<exists>s'. run (replicate (Suc (Suc 0)) Known) session_D = Inr s' \<and> screen s' = StudyCompleteScreen"
    by auto
  then have two: "map_sum id screen (run [Known, Known] session_D) = Inr StudyCompleteScreen" by auto
  show ?thesis using a d st one two by blast
qed

section \<open>Identifiers of duplicated entries\<close>

text \<open>
  C2 asks that the identifiers in the queue stay pairwise distinct under repeated
  duplication. \<open>need_more_study\<close> builds the identifier of a copy from the identifier of
  the current entry and the queue length at that moment, and the length can repeat after
  removals. On the one-card deck: needs more study, known, needs more study, known,
  known, needs more study (each after revealing the answer) leaves the queue holding
  \<open>S_0_dup_2\<close> twice.
\<close>

theorem need_more_study_duplicate_ids:
  "map_sum id study_cards
     (run [Toggle, NeedMore, Toggle, Known, Toggle, NeedMore, Toggle, Known, Toggle, Known,
           Toggle, NeedMore] session_S) =
   Inr [\<lparr>original_index = 0, card_data = card_a, card_id = ''S_0''\<rparr>,
        \<lparr>original_index = 0, card_data = card_a, card_id = ''S_0_dup_2''\<rparr>,
        \<lparr>original_index = 0, card_data = card_a, card_id = ''S_0_dup_2''\<rparr>,
        \<lparr>original_index = 0, card_data = card_a, card_id = ''S_0_dup_3''\<rparr>]"
  by (simp add: session_S_def next_card_def toggle_answer_def mark_as_known_def
      need_more_study_def show_study_card_def Let_def numeral_2_eq_2 duplicate_card_def
      str_nat.simps digit_char_def)

section \<open>The shuffle and the improved variant's bookkeeping\<close>

lemma mset_shuffle_from:
  "n < length xs \<Longrightarrow> mset (shuffle_from rb n xs) = mset xs"
proof (induction n arbitrary: xs)
  case 0
  then show ?case by simp
next
  case (Suc i)
  define j where "j = rb (Suc i + 1) mod (Suc i + 1)"
  have "j < Suc (Suc i)" by (simp add: j_def)
  then have j: "j < length xs" using Suc.prems by linarith
  have sw: "mset (xs[Suc i := xs ! j, j := xs ! Suc i]) = mset xs"
    using mset_swap [OF j Suc.prems] by simp
  have "i < length (xs[Suc i := xs ! j, j := xs ! Suc i])" using Suc.prems by simp
  from Suc.IH [OF this] sw show ?case by (simp add: j_def Let_def)
qed

lemma mset_shuffle: "mset (shuffle rb xs) = mset xs"
proof (cases xs)
  case Nil
  then show ?thesis by (simp add: shuffle_def)
next
  case (Cons x ys)
  then show ?thesis by (simp add: shuffle_def mset_shuffle_from)
qed

lemma length_shuffle: "length (shuffle rb xs) = length xs"
  using mset_shuffle [of rb xs] by (metis size_mset)

lemma set_shuffle: "set (shuffle rb xs) = set xs"
  using mset_shuffle [of rb xs] by (metis set_mset_mset)

lemma finish_fields:
  "current_card_index_imp (finish_study_session now s) = current_card_index_imp s"
  "known_cards_imp (finish_study_session now s) = known_cards_imp s"
  "study_cards_imp (finish_study_session now s) = study_cards_imp s"
  "session_start_time (finish_study_session now s) = session_start_time s"
  by (simp_all add: finish_study_session_def Let_def split: option.splits)

lemma show_imp_fields:
  "current_card_index_imp (show_study_card_imp now s) = current_card_index_imp s"
  "known_cards_imp (show_study_card_imp now s) = known_cards_imp s"
  "study_cards_imp (show_study_card_imp now s) = study_cards_imp s"
  "session_start_time (show_study_card_imp now s) = session_start_time s"
  by (simp_all add: show_study_card_imp_def finish_fields)

lemma next_card_imp_fields:
  "current_card_index_imp (next_card_imp now k s) = current_card_index_imp s + 1"
  "known_cards_imp (next_card_imp now k s) =
     (if k then insert (current_card_index_imp s) (known_cards_imp s) else known_cards_imp s)"
  "study_cards_imp (next_card_imp now k s) = study_cards_imp s"
  "session_start_time (next_card_imp now k s) = session_start_time s"
  by (simp_all add: next_card_imp_def show_imp_fields)

lemma toggle_imp_fields:
  "current_card_index_imp (toggle_answer_imp now s) = current_card_index_imp s"
  "known_cards_imp (toggle_answer_imp now s) = known_cards_imp s"
  "study_cards_imp (toggle_answer_imp now s) = study_cards_imp s"
  "session_start_time (toggle_answer_imp now s) = session_start_time s"
  by (simp_all add: toggle_answer_imp_def show_imp_fields)

lemma start_imp_fields:
  "current_card_index_imp (start_study_session_imp bh rb now s) = 0"
  "known_cards_imp (start_study_session_imp bh rb now s) = {}"
  "study_cards_imp (start_study_session_imp bh rb now s) =
     (if bh then shuffle rb (study_cards_imp s) else study_cards_imp s)"
  "session_start_time (start_study_session_imp bh rb now s) = Some now"
  by (simp_all add: start_study_session_imp_def Let_def show_imp_fields)

lemma step_imp_index_mono: "current_card_index_imp s \<le> current_card_index_imp (step_imp a s)"
  by (cases a) (simp_all add: next_card_imp_fields toggle_imp_fields finish_fields)

lemma step_imp_known:
  "known_cards_imp s \<subseteq> {..<current_card_index_imp s} \<Longrightarrow>
   known_cards_imp (step_imp a s) \<subseteq> {..<current_card_index_imp (step_imp a s)}"
  by (cases a) (auto simp: next_card_imp_fields toggle_imp_fields finish_fields)

lemma step_imp_keeps:
  "study_cards_imp (step_imp a s) = study_cards_imp s"
  "session_start_time (step_imp a s) = session_start_time s"
  by (cases a; simp add: next_card_imp_fields toggle_imp_fields finish_fields)+

lemma run_imp_append: "run_imp (as @ bs) s = run_imp bs (run_imp as s)"
  by (induction as arbitrary: s) simp_all

lemma run_imp_index_mono: "current_card_index_imp s \<le> current_card_index_imp (run_imp as s)"
proof (induction as arbitrary: s)
  case Nil
  then show ?case by simp
next
  case (Cons a as)
  from step_imp_index_mono [of s a] Cons.IH [of "step_imp a s"] show ?case by simp
qed

lemma run_imp_known:
  "known_cards_imp s \<subseteq> {..<current_card_index_imp s} \<Longrightarrow>
   known_cards_imp (run_imp as s) \<subseteq> {..<current_card_index_imp (run_imp as s)}"
  by (induction as arbitrary: s) (simp_all add: step_imp_known)

lemma run_imp_keeps:
  "study_cards_imp (run_imp as s) = study_cards_imp s"
  "session_start_time (run_imp as s) = session_start_time s"
  by (induction as arbitrary: s; simp add: step_imp_keeps)+

lemma card_below: "K \<subseteq> {..<n::nat} \<Longrightarrow> card K \<le> n"
  using subset_eq_atLeast0_lessThan_card [of K n] by (simp add: lessThan_atLeast0)

lemma accuracy_bounds: "k \<le> n \<Longrightarrow> 0 \<le> accuracy k n \<and> accuracy k n \<le> 100"
proof -
  assume kn: "k \<le> n"
  show ?thesis
  proof (cases "n > 0")
    case True
    define q :: rat where "q = of_nat k / of_nat n"
    have "(of_nat k :: rat) \<le> of_nat n" using kn by simp
    then have le1: "q \<le> 1" using True by (simp add: q_def divide_le_eq)
    have ge0: "0 \<le> q" by (simp add: q_def)
    have b: "0 \<le> q * 100 \<and> q * 100 \<le> 100" using le1 ge0 by auto
    have "accuracy k n = q * 100" using True by (simp add: accuracy_def q_def)
    then show ?thesis using b by simp
  next
    case False
    then show ?thesis by (simp add: accuracy_def)
  qed
qed

section \<open>Known positions in the improved variant\<close>

text \<open>
  C10. In the improved variant, along any sequence of callbacks after
  \<open>start_study_session\<close>, the index never decreases; \<open>next_card\<close> adds at most the index it
  was called at to \<open>known_cards\<close> and then increments the index; so \<open>known_cards\<close> holds
  positions strictly below the current index, it has at most that many elements, and a
  summary produced at any such point reports no more known cards than studied cards and an
  accuracy between 0 and 100.
\<close>

theorem improved_known_below_index:
  "current_card_index_imp (run_imp as (start_study_session_imp bh rb now s0))
     \<le> current_card_index_imp (run_imp (as @ bs) (start_study_session_imp bh rb now s0)) \<and>
   known_cards_imp (next_card_imp t k u) \<subseteq> insert (current_card_index_imp u) (known_cards_imp u) \<and>
   current_card_index_imp (next_card_imp t k u) = current_card_index_imp u + 1 \<and>
   known_cards_imp (run_imp as (start_study_session_imp bh rb now s0))
     \<subseteq> {..<current_card_index_imp (run_imp as (start_study_session_imp bh rb now s0))} \<and>
   card (known_cards_imp (run_imp as (start_study_session_imp bh rb now s0)))
     \<le> current_card_index_imp (run_imp as (start_study_session_imp bh rb now s0)) \<and>
   (\<exists>r. results_shown (finish_study_session t' (run_imp as (start_study_session_imp bh rb now s0))) = Some r \<and>
        shown_studied r = current_card_index_imp (run_imp as (start_study_session_imp bh rb now s0)) \<and>
        shown_known r = card (known_cards_imp (run_imp as (start_study_session_imp bh rb now s0))) \<and>
        shown_known r \<le> shown_studied r \<and> 0 \<le> shown_accuracy r \<and> shown_accuracy r \<le> 100)"
proof -
  define s where "s = start_study_session_imp bh rb now s0"
  define s' where "s' = run_imp as s"
  have mono: "current_card_index_imp s' \<le> current_card_index_imp (run_imp (as @ bs) s)"
    using run_imp_index_mono [of s' bs] by (simp add: run_imp_append s'_def)
  have "known_cards_imp s \<subseteq> {..<current_card_index_imp s}" by (simp add: s_def start_imp_fields)
  then have sub: "known_cards_imp s' \<subseteq> {..<current_card_index_imp s'}"
    unfolding s'_def by (rule run_imp_known)
  then have crd: "card (known_cards_imp s') \<le> current_card_index_imp s'" by (rule card_below)
  have "session_start_time s' = Some now" by (simp add: s'_def run_imp_keeps s_def start_imp_fields)
  then have res: "results_shown (finish_study_session t' s') =
      Some \<lparr>shown_studied = current_card_index_imp s', shown_known = card (known_cards_imp s'),
            shown_accuracy = accuracy (card (known_cards_imp s')) (current_card_index_imp s'),
            shown_duration = t' - now\<rparr>"
    by (simp add: finish_study_session_def Let_def)
  have nxt: "known_cards_imp (next_card_imp t k u) \<subseteq> insert (current_card_index_imp u) (known_cards_imp u)"
    by (auto simp: next_card_imp_fields)
  show ?thesis
    using mono sub crd res nxt accuracy_bounds [OF crd]
    by (simp add: s'_def [symmetric] s_def [symmetric] next_card_imp_fields)
qed

theorem improved_known_below_index_witness:
  "current_card_index_imp (run_imp [NextCard 1 True] (start_study_session_imp False (\<lambda>n. 0) 0 session_D_imp))
     \<le> current_card_index_imp (run_imp ([NextCard 1 True] @ [NextCard 2 False]) (start_study_session_imp False (\<lambda>n. 0) 0 session_D_imp)) \<and>
   known_cards_imp (next_card_imp 1 True session_D_imp)
     \<subseteq> insert (current_card_index_imp session_D_imp) (known_cards_imp session_D_imp) \<and>
   current_card_index_imp (next_card_imp 1 True session_D_imp) = current_card_index_imp session_D_imp + 1 \<and>
   known_cards_imp (run_imp [NextCard 1 True] (start_study_session_imp False (\<lambda>n. 0) 0 session_D_imp))
     \<subseteq> {..<current_card_index_imp (run_imp [NextCard 1 True] (start_study_session_imp False (\<lambda>n. 0) 0 session_D_imp))} \<and>
   card (known_cards_imp (run_imp [NextCard 1 True] (start_study_session_imp False (\<lambda>n. 0) 0 session_D_imp)))
     \<le> current_card_index_imp (run_imp [NextCard 1 True] (start_study_session_imp False (\<lambda>n. 0) 0 session_D_imp)) \<and>
   (\<exists>r. results_shown (finish_study_session 3 (run_imp [NextCard 1 True] (start_study_session_imp False (\<lambda>n. 0) 0 session_D_imp))) = Some r \<and>
        shown_studied r = current_card_index_imp (run_imp [NextCard 1 True] (start_study_session_imp False (\<lambda>n. 0) 0 session_D_imp)) \<and>
        shown_known r = card (known_cards_imp (run_imp [NextCard 1 True] (start_study_session_imp False (\<lambda>n. 0) 0 session_D_imp))) \<and>
        shown_known r \<le> shown_studied r \<and> 0 \<le> shown_accuracy r \<and> shown_accuracy r \<le> 100)"
  by (rule improved_known_below_index)

section \<open>What the set of known cards holds\<close>

lemma show_study_card_keeps:
  "show_study_card s = Inr s' \<Longrightarrow>
   study_cards s' = study_cards s \<and> known_cards s' = known_cards s \<and>
   current_deck s' = current_deck s \<and> decks s' = decks s"
  by (auto simp: show_study_card_def study_complete_def Let_def split: if_splits)

lemma session_inv_cong:
  "set (study_cards t) \<subseteq> set (study_cards s) \<Longrightarrow> known_cards t \<subseteq> known_cards s \<Longrightarrow>
   current_deck t = current_deck s \<Longrightarrow> session_inv N s \<Longrightarrow> session_inv N t"
  unfolding session_inv_def by (simp add: subset_iff)

lemma append_duplicates_two:
  "append_duplicates 2 c cs = cs @ [duplicate_card c (length cs), duplicate_card c (Suc (length cs))]"
  by (simp add: numeral_2_eq_2)

lemma need_more_study_effect:
  assumes "current_card_index s < length (study_cards s)"
  shows "need_more_study s =
     Inr (s\<lparr>study_cards := study_cards s @
              [duplicate_card (study_cards s ! current_card_index s) (length (study_cards s)),
               duplicate_card (study_cards s ! current_card_index s) (Suc (length (study_cards s)))],
            current_card_index := current_card_index s + 1, show_answer := False,
            screen := StudyCardScreen\<rparr>)"
  using assms
  by (simp add: need_more_study_def Let_def append_duplicates_two next_card_def show_study_card_def)

lemma session_inv_known:
  assumes inv: "session_inv N s" and mk: "mark_as_known s = Inr s'"
  shows "session_inv N s'"
proof -
  define i where "i = current_card_index s"
  define cs where "cs = study_cards s"
  have ilt: "i < length cs" using mk
    by (auto simp: mark_as_known_def Let_def i_def cs_def split: if_splits)
  obtain t where sh: "show_study_card t = Inr s'"
    and tcs: "study_cards t = take i cs @ drop (Suc i) cs"
    and tk: "known_cards t = insert (card_id (cs ! i)) (known_cards s)"
    and td: "current_deck t = current_deck s"
    using mk ilt unfolding mark_as_known_def Let_def i_def cs_def
    by (auto split: if_splits)
  have e: "cs ! i \<in> set (study_cards s)" using ilt by (simp add: cs_def)
  have sub: "set (study_cards t) \<subseteq> set (study_cards s)"
    using tcs by (auto simp: cs_def dest: in_set_takeD in_set_dropD)
  have "session_inv N t"
    using inv e sub unfolding session_inv_def tk td
    by (auto simp: subset_iff)
  with show_study_card_keeps [OF sh] show ?thesis
    using session_inv_cong [of s' t N] by simp
qed

lemma session_inv_need_more:
  assumes inv: "session_inv N s" and nm: "need_more_study s = Inr s'"
  shows "session_inv N s'"
proof -
  have ilt: "current_card_index s < length (study_cards s)" using nm
    by (auto simp: need_more_study_def Let_def split: if_splits)
  define c where "c = study_cards s ! current_card_index s"
  have e: "c \<in> set (study_cards s)" using ilt by (simp add: c_def)
  have dup: "original_index (duplicate_card c n) = original_index c"
    "prefix p (card_id c) \<Longrightarrow> prefix p (card_id (duplicate_card c n))" for n p
    by (simp_all add: duplicate_card_def prefix_prefix)
  from need_more_study_effect [OF ilt] nm have
    s': "study_cards s' = study_cards s @ [duplicate_card c (length (study_cards s)),
               duplicate_card c (Suc (length (study_cards s)))]"
      "known_cards s' = known_cards s" "current_deck s' = current_deck s"
    by (auto simp: c_def)
  show ?thesis using inv e dup unfolding session_inv_def s' by auto
qed

lemma session_inv_step:
  assumes inv: "session_inv N s" and st: "step a s = Inr s'"
  shows "session_inv N s'"
proof (cases a)
  case Toggle
  with st have "show_study_card (s\<lparr>show_answer := \<not> show_answer s\<rparr>) = Inr s'"
    by (simp add: toggle_answer_def)
  from show_study_card_keeps [OF this] inv show ?thesis
    using session_inv_cong [of s' s N] by simp
next
  case Next
  with st have "show_study_card (s\<lparr>current_card_index := current_card_index s + 1,
      show_answer := False\<rparr>) = Inr s'"
    by (simp add: next_card_def)
  from show_study_card_keeps [OF this] inv show ?thesis
    using session_inv_cong [of s' s N] by simp
next
  case Prev
  show ?thesis
  proof (cases "current_card_index s > 0")
    case True
    with st Prev have "show_study_card (s\<lparr>current_card_index := current_card_index s - 1,
      show_answer := False\<rparr>) = Inr s'"
      by (simp add: prev_card_def)
    from show_study_card_keeps [OF this] inv show ?thesis
      using session_inv_cong [of s' s N] by simp
  next
    case False
    with st Prev inv show ?thesis by (simp add: prev_card_def)
  qed
next
  case Known
  with st inv show ?thesis by (simp add: session_inv_known)
next
  case NeedMore
  with st inv show ?thesis by (simp add: session_inv_need_more)
qed

lemma session_inv_run:
  "session_inv N s \<Longrightarrow> run acts s = Inr s' \<Longrightarrow> session_inv N s'"
proof (induction acts arbitrary: s)
  case Nil
  then show ?case by simp
next
  case (Cons a acts)
  from Cons.prems(2) obtain s1 where s1: "step a s = Inr s1" and r: "run acts s1 = Inr s'"
    by (auto split: sum.splits)
  from Cons.IH [OF session_inv_step [OF Cons.prems(1) s1] r] show ?case .
qed

lemma session_inv_prepare:
  "session_inv (length (get_deck_cards s (current_deck s))) (prepare_study_cards s)"
  unfolding session_inv_def prepare_study_cards_def Let_def
  by (auto simp: make_study_card_def in_set_enumerate_eq)

lemma start_sequential_inv:
  assumes "start_sequential s0 = Inr s"
  shows "session_inv (length (get_deck_cards s0 (current_deck s0))) s"
proof -
  define s1 where "s1 = prepare_study_cards (s0\<lparr>study_mode := ''sequential''\<rparr>)"
  have d: "get_deck_cards (s0\<lparr>study_mode := ''sequential''\<rparr>) (current_deck s0)
         = get_deck_cards s0 (current_deck s0)"
    by (rule get_deck_cards_cong) simp
  have inv1: "session_inv (length (get_deck_cards s0 (current_deck s0))) s1"
    using session_inv_prepare [of "s0\<lparr>study_mode := ''sequential''\<rparr>"] d by (simp add: s1_def)
  from assms have "show_study_card (s1\<lparr>current_card_index := 0, show_answer := False\<rparr>) = Inr s"
    by (simp add: start_sequential_def start_study_session_def s1_def)
  from show_study_card_keeps [OF this] inv1 show ?thesis
    using session_inv_cong [of s s1] by simp
qed

lemma start_random_inv:
  assumes "start_random rb s0 = Inr s"
  shows "session_inv (length (get_deck_cards s0 (current_deck s0))) s"
proof -
  define s1 where "s1 = prepare_study_cards (s0\<lparr>study_mode := ''random''\<rparr>)"
  have d: "get_deck_cards (s0\<lparr>study_mode := ''random''\<rparr>) (current_deck s0)
         = get_deck_cards s0 (current_deck s0)"
    by (rule get_deck_cards_cong) simp
  have inv1: "session_inv (length (get_deck_cards s0 (current_deck s0))) s1"
    using session_inv_prepare [of "s0\<lparr>study_mode := ''random''\<rparr>"] d by (simp add: s1_def)
  from assms have "show_study_card (s1\<lparr>study_cards := shuffle rb (study_cards s1),
      current_card_index := 0, show_answer := False\<rparr>) = Inr s"
    by (simp add: start_random_def start_study_session_def s1_def Let_def)
  from show_study_card_keeps [OF this] inv1 show ?thesis
    using session_inv_cong [of s s1] by (simp add: set_shuffle)
qed

lemma run_S_all_known:
  "run [Toggle, NeedMore, Toggle, Known, Toggle, Known, Toggle, Known] session_S =
     Inr (session_S\<lparr>study_cards := [], known_cards := {''S_0'', ''S_0_dup_2'', ''S_0_dup_1''},
           screen := StudyCompleteScreen,
           stats_shown := Some \<lparr>original_count = 1, cards_mastered = 3, mastery_rate = Some 300\<rparr>\<rparr>)"
  by (simp add: session_S_def next_card_def toggle_answer_def mark_as_known_def
      need_more_study_def show_study_card_def study_complete_def get_deck_cards_def Let_def
      numeral_2_eq_2 duplicate_card_def str_nat.simps digit_char_def)

lemma start_sequential_S:
  "start_sequential (app0\<lparr>current_deck := Some ''S'', screen := ModeSelection\<rparr>) = Inr session_S"
  by (simp add: start_sequential_def start_study_session_def prepare_study_cards_def
      show_study_card_def get_deck_cards_def app0_def session_S_def make_study_card_def
      deck_label_def str_nat.simps digit_char_def enumerate_eq_zip)

text \<open>
  What does hold of the two sets. In the improved variant \<open>known_cards\<close> is a set of queue
  positions: while the index has not passed the length \<open>N\<close> of the queue, every element is
  below \<open>N\<close> and there are at most \<open>N\<close> of them. In the first variant every queue entry
  keeps an \<open>original_index\<close> below the number of cards of the deck, and every identifier
  in \<open>known_cards\<close> extends the identifier built for such an index.
\<close>

lemma known_cards_scope:
  "(current_card_index_imp (run_imp as (start_study_session_imp bh rb now t0))
      \<le> length (study_cards_imp t0) \<longrightarrow>
    known_cards_imp (run_imp as (start_study_session_imp bh rb now t0))
      \<subseteq> {..<length (study_cards_imp t0)} \<and>
    card (known_cards_imp (run_imp as (start_study_session_imp bh rb now t0)))
      \<le> length (study_cards_imp t0)) \<and>
   ((start_sequential s0 = Inr s \<or> start_random rb' s0 = Inr s) \<and> run acts s = Inr s' \<longrightarrow>
    session_inv (length (get_deck_cards s0 (current_deck s0))) s')"
proof -
  define u where "u = run_imp as (start_study_session_imp bh rb now t0)"
  have "known_cards_imp (start_study_session_imp bh rb now t0)
        \<subseteq> {..<current_card_index_imp (start_study_session_imp bh rb now t0)}"
    by (simp add: start_imp_fields)
  then have sub: "known_cards_imp u \<subseteq> {..<current_card_index_imp u}"
    unfolding u_def by (rule run_imp_known)
  have imp: "known_cards_imp u \<subseteq> {..<length (study_cards_imp t0)} \<and>
        card (known_cards_imp u) \<le> length (study_cards_imp t0)"
    if le: "current_card_index_imp u \<le> length (study_cards_imp t0)"
  proof -
    have "known_cards_imp u \<subseteq> {..<length (study_cards_imp t0)}" using sub le by auto
    then show ?thesis using card_below by blast
  qed
  have fc4: "session_inv (length (get_deck_cards s0 (current_deck s0))) s'"
    if "start_sequential s0 = Inr s \<or> start_random rb' s0 = Inr s" "run acts s = Inr s'"
    using that start_sequential_inv start_random_inv session_inv_run by blast
  show ?thesis using imp fc4 unfolding u_def by blast
qed

text \<open>
  C3 asks that the mastered cards be original cards of the deck, at most as many as the
  deck has, also when duplicates made by "needs more study" are graded known. The first
  variant's \<open>mark_as_known\<close> records the \<open>card_id\<close> of the queue entry, which differs for
  every duplicate, and never reads the \<open>original_index\<close> that each duplicate carries. On
  the one-card deck, started in sequential order: needs more study, then known for both
  copies and for the original (each after revealing the answer) completes the session
  with three mastered identifiers for the one card, and the completion screen reports
  3 mastered of 1 original card, a rate of 300.
\<close>

theorem known_cards_exceed_deck:
  "start_sequential (app0\<lparr>current_deck := Some ''S'', screen := ModeSelection\<rparr>) = Inr session_S \<and>
   length (get_deck_cards session_S (current_deck session_S)) = 1 \<and>
   map_sum id known_cards
     (run [Toggle, NeedMore, Toggle, Known, Toggle, Known, Toggle, Known] session_S)
     = Inr {''S_0'', ''S_0_dup_2'', ''S_0_dup_1''} \<and>
   map_sum id stats_shown
     (run [Toggle, NeedMore, Toggle, Known, Toggle, Known, Toggle, Known] session_S)
     = Inr (Some \<lparr>original_count = 1, cards_mastered = 3, mastery_rate = Some 300\<rparr>)"
  unfolding run_S_all_known start_sequential_S by (simp add: session_S_def get_deck_cards_def)

section \<open>The figure shown in the summary\<close>

text \<open>
  C5, as the code has it. The improved variant's summary of a started session always shows
  an accuracy: known / studied * 100 when the number studied is positive, 0 otherwise. The
  first variant's completion screen shows a mastery rate of known / (number of cards of
  the deck) * 100, and only when at least one card is known; with none known it shows
  the two counts and no rate.
\<close>

theorem summary_rate:
  "(session_start_time t = Some t0 \<longrightarrow>
      map_option shown_accuracy (results_shown (finish_study_session now t)) =
        Some (if current_card_index_imp t > 0
              then of_nat (card (known_cards_imp t)) / of_nat (current_card_index_imp t) * 100
              else 0)) \<and>
   (card (known_cards s) = 0 \<longrightarrow>
      map_sum id stats_shown (study_complete s) =
        Inr (Some \<lparr>original_count = length (get_deck_cards s (current_deck s)),
                   cards_mastered = 0, mastery_rate = None\<rparr>)) \<and>
   (card (known_cards s) > 0 \<and> get_deck_cards s (current_deck s) \<noteq> [] \<longrightarrow>
      map_sum id stats_shown (study_complete s) =
        Inr (Some \<lparr>original_count = length (get_deck_cards s (current_deck s)),
                   cards_mastered = card (known_cards s),
                   mastery_rate = Some (of_nat (card (known_cards s)) /
                       of_nat (length (get_deck_cards s (current_deck s))) * 100)\<rparr>))"
  by (simp add: finish_study_session_def accuracy_def study_complete_def Let_def)

theorem summary_rate_witness:
  "session_start_time (session_D_imp\<lparr>current_card_index_imp := 2, known_cards_imp := {0}\<rparr>) = Some 0 \<and>
   map_option shown_accuracy (results_shown (finish_study_session 9
        (session_D_imp\<lparr>current_card_index_imp := 2, known_cards_imp := {0}\<rparr>))) = Some 50 \<and>
   card (known_cards (session_S\<lparr>study_cards := []\<rparr>)) = 0 \<and>
   map_sum id stats_shown (study_complete (session_S\<lparr>study_cards := []\<rparr>)) =
     Inr (Some \<lparr>original_count = 1, cards_mastered = 0, mastery_rate = None\<rparr>) \<and>
   card (known_cards (session_S\<lparr>study_cards := [], known_cards := {''S_0''}\<rparr>)) > 0 \<and>
   get_deck_cards (session_S\<lparr>study_cards := [], known_cards := {''S_0''}\<rparr>)
      (current_deck (session_S\<lparr>study_cards := [], known_cards := {''S_0''}\<rparr>)) \<noteq> [] \<and>
   map_sum id stats_shown (study_complete (session_S\<lparr>study_cards := [], known_cards := {''S_0''}\<rparr>)) =
     Inr (Some \<lparr>original_count = 1, cards_mastered = 1, mastery_rate = Some 100\<rparr>)"
  using summary_rate [of "session_D_imp\<lparr>current_card_index_imp := 2, known_cards_imp := {0}\<rparr>" 0 9
      "session_S\<lparr>study_cards := []\<rparr>"]
    summary_rate [of "session_D_imp" 0 9 "session_S\<lparr>study_cards := [], known_cards := {''S_0''}\<rparr>"]
  by (simp add: session_D_imp_def session_S_def get_deck_cards_def)

text \<open>The claim that every summary carries the figure, also with no card mastered,
  fails on the first variant's completion screen.\<close>

theorem summary_rate_omitted_counterexample:
  "card (known_cards (session_S\<lparr>study_cards := []\<rparr>)) = 0 \<and>
   map_sum id stats_shown (study_complete (session_S\<lparr>study_cards := []\<rparr>)) =
     Inr (Some \<lparr>original_count = 1, cards_mastered = 0, mastery_rate = None\<rparr>)"
  by (simp add: study_complete_def session_S_def get_deck_cards_def Let_def)

section \<open>The order of the queue\<close>

lemma prepare_cards:
  "study_cards (prepare_study_cards s) =
     map (make_study_card (current_deck s)) (enumerate 0 (get_deck_cards s (current_deck s)))"
  by (simp add: prepare_study_cards_def Let_def)

lemma prepare_order:
  "map card_data (study_cards (prepare_study_cards s)) = get_deck_cards s (current_deck s) \<and>
   map original_index (study_cards (prepare_study_cards s)) =
     [0..<length (get_deck_cards s (current_deck s))]"
proof -
  have a: "card_data \<circ> make_study_card d = snd" "original_index \<circ> make_study_card d = fst" for d
    by (auto simp: make_study_card_def fun_eq_iff)
  show ?thesis by (simp add: prepare_cards a enumerate_eq_zip)
qed

lemma start_sequential_ok:
  assumes ne: "get_deck_cards s (current_deck s) \<noteq> []"
  shows "\<exists>s'. start_sequential s = Inr s' \<and> study_mode s' = ''sequential'' \<and>
         screen s' = StudyCardScreen \<and>
         map card_data (study_cards s') = get_deck_cards s (current_deck s) \<and>
         map original_index (study_cards s') = [0..<length (get_deck_cards s (current_deck s))]"
proof -
  define s0 where "s0 = s\<lparr>study_mode := ''sequential''\<rparr>"
  have d: "get_deck_cards s0 (current_deck s0) = get_deck_cards s (current_deck s)"
    using get_deck_cards_cong [of s0 s] by (simp add: s0_def)
  define s1 where "s1 = prepare_study_cards s0"
  have o: "map card_data (study_cards s1) = get_deck_cards s (current_deck s)"
    "map original_index (study_cards s1) = [0..<length (get_deck_cards s (current_deck s))]"
    using prepare_order [of s0] d by (simp_all add: s1_def)
  have ne1: "study_cards s1 \<noteq> []" using o(1) ne by auto
  have m: "study_mode s1 = ''sequential''"
    by (simp add: s1_def s0_def prepare_study_cards_def Let_def)
  have "start_sequential s = Inr (s1\<lparr>current_card_index := 0, show_answer := False,
      screen := StudyCardScreen\<rparr>)"
    using ne1 by (simp add: start_sequential_def start_study_session_def show_study_card_def
        s1_def s0_def)
  then show ?thesis using o m by simp
qed

lemma start_random_ok:
  assumes ne: "get_deck_cards s (current_deck s) \<noteq> []"
  shows "\<exists>s'. start_random rb s = Inr s' \<and> study_mode s' = ''random'' \<and>
         screen s' = StudyCardScreen \<and>
         mset (map card_data (study_cards s')) = mset (get_deck_cards s (current_deck s)) \<and>
         mset (map original_index (study_cards s')) =
           mset [0..<length (get_deck_cards s (current_deck s))]"
proof -
  define s0 where "s0 = s\<lparr>study_mode := ''random''\<rparr>"
  have d: "get_deck_cards s0 (current_deck s0) = get_deck_cards s (current_deck s)"
    using get_deck_cards_cong [of s0 s] by (simp add: s0_def)
  define s1 where "s1 = prepare_study_cards s0"
  have o: "map card_data (study_cards s1) = get_deck_cards s (current_deck s)"
    "map original_index (study_cards s1) = [0..<length (get_deck_cards s (current_deck s))]"
    using prepare_order [of s0] d by (simp_all add: s1_def)
  have ne1: "study_cards s1 \<noteq> []" using o(1) ne by auto
  then have ne2: "shuffle rb (study_cards s1) \<noteq> []"
    using length_shuffle [of rb "study_cards s1"] by auto
  have m: "study_mode s1 = ''random''"
    by (simp add: s1_def s0_def prepare_study_cards_def Let_def)
  have ms: "mset (map f (shuffle rb (study_cards s1))) = mset (map f (study_cards s1))"
    for f :: "study_card \<Rightarrow> 'b"
    by (simp add: mset_shuffle)
  have "start_random rb s = Inr (s1\<lparr>study_cards := shuffle rb (study_cards s1),
      current_card_index := 0, show_answer := False, screen := StudyCardScreen\<rparr>)"
    using ne2 by (simp add: start_random_def start_study_session_def show_study_card_def
        s1_def s0_def Let_def)
  then show ?thesis using o m ms [of card_data] ms [of original_index] by simp
qed

text \<open>
  C4, as the code has it. In the first variant, for a deck with cards, the sequential
  start leaves the queue in deck order with \<open>original_index\<close> 0, 1, ..., and the random
  start yields a permutation of it; which one happens is the choice of the start callback,
  recorded in \<open>study_mode\<close>. The improved variant has no mode argument: its
  \<open>start_study_session\<close> shuffles exactly when a random draw is below one half, and the
  queue is a permutation of the deck either way.
\<close>

theorem queue_order:
  "(get_deck_cards s (current_deck s) \<noteq> [] \<longrightarrow>
      (\<exists>s'. start_sequential s = Inr s' \<and> study_mode s' = ''sequential'' \<and>
         map card_data (study_cards s') = get_deck_cards s (current_deck s) \<and>
         map original_index (study_cards s') = [0..<length (get_deck_cards s (current_deck s))]) \<and>
      (\<exists>s'. start_random rb s = Inr s' \<and> study_mode s' = ''random'' \<and>
         mset (map card_data (study_cards s')) = mset (get_deck_cards s (current_deck s)) \<and>
         mset (map original_index (study_cards s')) =
           mset [0..<length (get_deck_cards s (current_deck s))])) \<and>
   study_cards_imp (start_study_session_imp below_half rb' now t) =
     (if below_half then shuffle rb' (study_cards_imp t) else study_cards_imp t) \<and>
   mset (study_cards_imp (start_study_session_imp below_half rb' now t)) = mset (study_cards_imp t)"
proof -
  have "get_deck_cards s (current_deck s) \<noteq> [] \<longrightarrow>
      (\<exists>s'. start_sequential s = Inr s' \<and> study_mode s' = ''sequential'' \<and>
         map card_data (study_cards s') = get_deck_cards s (current_deck s) \<and>
         map original_index (study_cards s') = [0..<length (get_deck_cards s (current_deck s))]) \<and>
      (\<exists>s'. start_random rb s = Inr s' \<and> study_mode s' = ''random'' \<and>
         mset (map card_data (study_cards s')) = mset (get_deck_cards s (current_deck s)) \<and>
         mset (map original_index (study_cards s')) =
           mset [0..<length (get_deck_cards s (current_deck s))])"
    using start_sequential_ok [of s] start_random_ok [of s rb] by blast
  then show ?thesis by (simp add: start_imp_fields mset_shuffle)
qed

theorem queue_order_witness:
  "get_deck_cards (app0\<lparr>current_deck := Some ''D''\<rparr>) (current_deck (app0\<lparr>current_deck := Some ''D''\<rparr>)) \<noteq> [] \<and>
   (\<exists>s'. start_sequential (app0\<lparr>current_deck := Some ''D''\<rparr>) = Inr s' \<and> study_mode s' = ''sequential'' \<and>
         map card_data (study_cards s') = [card_a, card_b] \<and>
         map original_index (study_cards s') = [0, 1]) \<and>
   (\<exists>s'. start_random (\<lambda>n. 0) (app0\<lparr>current_deck := Some ''D''\<rparr>) = Inr s' \<and> study_mode s' = ''random'' \<and>
         mset (map card_data (study_cards s')) = mset [card_a, card_b] \<and>
         mset (map original_index (study_cards s')) = mset [0, 1]) \<and>
   study_cards_imp (start_study_session_imp True (\<lambda>n. 0) 0 session_D_imp) = shuffle (\<lambda>n. 0) [card_a, card_b] \<and>
   mset (study_cards_imp (start_study_session_imp True (\<lambda>n. 0) 0 session_D_imp)) = mset [card_a, card_b]"
proof -
  have d: "get_deck_cards (app0\<lparr>current_deck := Some ''D''\<rparr>) (current_deck (app0\<lparr>current_deck := Some ''D''\<rparr>))
       = [card_a, card_b]"
    by (simp add: app0_def get_deck_cards_def)
  have u: "[0..<length [card_a, card_b]] = [0, 1]" by (simp add: upt_rec)
  have c: "study_cards_imp session_D_imp = [card_a, card_b]" by (simp add: session_D_imp_def)
  from queue_order [of "app0\<lparr>current_deck := Some ''D''\<rparr>" "\<lambda>n. 0" True "\<lambda>n. 0" 0 session_D_imp]
  show ?thesis unfolding d u c by (simp add: mset_shuffle)
qed

text \<open>In the improved variant the order is not determined by a mode: with \<open>study_mode\<close>
  reading \<open>sequential\<close>, the queue comes out reordered when the draw is below one half.\<close>

theorem improved_order_ignores_mode_counterexample:
  "study_mode_imp session_D_imp = ''sequential'' \<and>
   study_cards_imp session_D_imp = [card_a, card_b] \<and>
   study_cards_imp (start_study_session_imp True (\<lambda>n. 0) 0 session_D_imp) = [card_b, card_a] \<and>
   study_cards_imp (start_study_session_imp False (\<lambda>n. 0) 0 session_D_imp) = [card_a, card_b]"
  by (simp add: start_imp_fields session_D_imp_def shuffle_def)

section \<open>Empty decks\<close>









end
